theory Spec2Isabelle
  imports Main "HOL-Library.Word"
begin

section \<open>Data model of the fuel counter (fuel\_counter.h)\<close>

text \<open>
  The lane state machine has three states. The C++ declaration is
  \<^verbatim>\<open>enum class LaneState : uint8_t { IDLE, BALL_PRESENT, LOCKOUT }\<close>.
\<close>

datatype LaneState = IDLE | BALL_PRESENT | LOCKOUT

text \<open>
  \<^verbatim>\<open>struct Lane\<close>: the distances are \<^verbatim>\<open>uint16_t\<close> millimetres, the count and
  the lockout timestamp are \<^verbatim>\<open>uint32_t\<close>. All arithmetic on them wraps around, so
  they are fixed-width words.
\<close>

record Lane =
  baseline_mm :: "16 word"
  threshold_mm :: "16 word"
  clearThresh_mm :: "16 word"
  count :: "32 word"
  state :: LaneState
  lockoutStart :: "32 word"
  sensorOk :: bool
  lastDistance_mm :: "16 word"

text \<open>The default member initialisers of \<^verbatim>\<open>struct Lane\<close>.\<close>

definition Lane_default :: Lane where
  "Lane_default =
     \<lparr>baseline_mm = 0, threshold_mm = 0, clearThresh_mm = 0, count = 0, state = IDLE,
      lockoutStart = 0, sensorOk = False, lastDistance_mm = 0\<rparr>"

definition FC_NUM_LANES :: "8 word" where
  "FC_NUM_LANES = 4"

section \<open>The pure-logic functions (fuel\_counter.cpp)\<close>

text \<open>
  \<^verbatim>\<open>bool processLaneReading(Lane& lane, uint16_t distance_mm, uint32_t now_ms,
  uint32_t lockout_ms)\<close>. The lane is modified in place; the model returns the
  updated lane together with the boolean result. The early \<^verbatim>\<open>return true\<close> in the
  BALL\_PRESENT case and the final \<^verbatim>\<open>return false\<close> are the second components.
\<close>

definition processLaneReading ::
  "Lane \<Rightarrow> 16 word \<Rightarrow> 32 word \<Rightarrow> 32 word \<Rightarrow> Lane \<times> bool" where
  "processLaneReading lane distance_mm now_ms lockout_ms =
     (if \<not> sensorOk lane then (lane, False)
      else
        let lane1 = lane\<lparr>lastDistance_mm := distance_mm\<rparr> in
        (case state lane1 of
           IDLE \<Rightarrow>
             (if distance_mm < threshold_mm lane1
              then (lane1\<lparr>state := BALL_PRESENT\<rparr>, False)
              else (lane1, False))
         | BALL_PRESENT \<Rightarrow>
             (if distance_mm > clearThresh_mm lane1
              then (lane1\<lparr>count := count lane1 + 1,
                          state := LOCKOUT,
                          lockoutStart := now_ms\<rparr>, True)
              else (lane1, False))
         | LOCKOUT \<Rightarrow>
             (if now_ms - lockoutStart lane1 \<ge> lockout_ms
              then (lane1\<lparr>state := IDLE\<rparr>, False)
              else (lane1, False))))"

text \<open>
  \<^verbatim>\<open>void calculateThresholds(Lane& lane, uint16_t baseline_mm,
  uint16_t detection_delta_mm, uint16_t clear_hysteresis_mm)\<close>. Both results are
  stored in \<^verbatim>\<open>uint16_t\<close> fields, so the difference and the sum are taken modulo
  \<open>2 ^ 16\<close>; the second assignment reads the field written by the first.
\<close>

definition calculateThresholds ::
  "Lane \<Rightarrow> 16 word \<Rightarrow> 16 word \<Rightarrow> 16 word \<Rightarrow> Lane" where
  "calculateThresholds lane baseline detection_delta_mm clear_hysteresis_mm =
     (let lane1 = lane\<lparr>baseline_mm := baseline\<rparr>;
          lane2 = lane1\<lparr>threshold_mm := baseline - detection_delta_mm\<rparr>
      in lane2\<lparr>clearThresh_mm := threshold_mm lane2 + clear_hysteresis_mm\<rparr>)"

text \<open>
  \<^verbatim>\<open>void resetLanes(Lane lanes[], uint8_t num_lanes, uint32_t& totalCount)\<close>.
  The \<^verbatim>\<open>for\<close> loop runs \<open>i\<close> from 0 while \<open>i < num_lanes\<close>; the counter never
  exceeds \<open>num_lanes \<le> 255\<close>, so it is a natural number here. The array is a list;
  writing past its end is undefined behaviour in C++ and is the result \<open>None\<close>.
\<close>

function resetLanes_loop :: "nat \<Rightarrow> nat \<Rightarrow> Lane list \<Rightarrow> Lane list option" where
  "resetLanes_loop i num_lanes lanes =
     (if i < num_lanes
      then (if i < length lanes
            then resetLanes_loop (Suc i) num_lanes
                   (lanes[i := (lanes ! i)\<lparr>count := 0, state := IDLE\<rparr>])
            else None)
      else Some lanes)"
  by pat_completeness auto
termination
  by (relation "measure (\<lambda>(i, num_lanes, lanes). num_lanes - i)") auto

declare resetLanes_loop.simps [simp del]

definition resetLanes ::
  "Lane list \<Rightarrow> 8 word \<Rightarrow> 32 word \<Rightarrow> (Lane list \<times> 32 word) option" where
  "resetLanes lanes num_lanes totalCount =
     (case resetLanes_loop 0 (unat num_lanes) lanes of
        None \<Rightarrow> None
      | Some lanes' \<Rightarrow> Some (lanes', 0))"

text \<open>
  A driver for one lane: the calls \<open>processLaneReading(lane, d, now, lockout_ms)\<close>
  made for a list of samples \<open>(d, now)\<close>, in order, on the same lane and with the
  same lockout duration. The result lists the boolean returned by each call.
\<close>

fun lane_run :: "Lane \<Rightarrow> 32 word \<Rightarrow> (16 word \<times> 32 word) list \<Rightarrow> bool list" where
  "lane_run lane lockout_ms [] = []"
| "lane_run lane lockout_ms ((distance_mm, now_ms) # rest) =
     (case processLaneReading lane distance_mm now_ms lockout_ms of
        (lane', counted) \<Rightarrow> counted # lane_run lane' lockout_ms rest)"

section \<open>The aggregator (main.cpp)\<close>

text \<open>
  The globals \<^verbatim>\<open>Lane lanes[NUM_LANES]\<close>, \<^verbatim>\<open>uint32_t totalCount\<close> and
  \<^verbatim>\<open>bool countsChanged\<close>, and the constants \<^verbatim>\<open>LOCKOUT_MS\<close> and \<^verbatim>\<open>NUM_LANES\<close>.
\<close>

definition LOCKOUT_MS :: "32 word" where
  "LOCKOUT_MS = 60"

definition NUM_LANES :: "8 word" where
  "NUM_LANES = FC_NUM_LANES"

record System =
  lanes :: "Lane list"
  totalCount :: "32 word"
  countsChanged :: bool

definition System_init :: System where
  "System_init =
     \<lparr>lanes = replicate (unat NUM_LANES) Lane_default, totalCount = 0,
      countsChanged = True\<rparr>"

text \<open>
  \<^verbatim>\<open>void updateLane(uint8_t ch)\<close>. The sensor reading
  (\<^verbatim>\<open>readRangeContinuousMillimeters()\<close>), the sensor's timeout flag
  (\<^verbatim>\<open>timeoutOccurred()\<close>) and the clock (\<^verbatim>\<open>millis()\<close>) come from the hardware
  and are arguments here. An index outside the array is undefined behaviour in C++
  and is the result \<open>None\<close>; the main loop only passes \<open>ch < NUM_LANES\<close>.
\<close>

definition updateLane ::
  "System \<Rightarrow> 8 word \<Rightarrow> 16 word \<Rightarrow> bool \<Rightarrow> 32 word \<Rightarrow> System option" where
  "updateLane s ch dist timeoutOccurred millis =
     (if \<not> unat ch < length (lanes s) then None
      else if \<not> sensorOk (lanes s ! unat ch) then Some s
      else if timeoutOccurred then Some s
      else (case processLaneReading (lanes s ! unat ch) dist millis LOCKOUT_MS of
              (lane', counted) \<Rightarrow>
                let s1 = s\<lparr>lanes := (lanes s)[unat ch := lane']\<rparr>
                in Some (if counted
                         then s1\<lparr>totalCount := totalCount s1 + 1, countsChanged := True\<rparr>
                         else s1)))"

text \<open>
  The reset branch of \<^verbatim>\<open>onWsMessage\<close>:
  \<^verbatim>\<open>resetLanes(lanes, NUM_LANES, totalCount); countsChanged = true;\<close>
\<close>

definition resetCommand :: "System \<Rightarrow> System option" where
  "resetCommand s =
     (case resetLanes (lanes s) NUM_LANES (totalCount s) of
        None \<Rightarrow> None
      | Some (lanes', total') \<Rightarrow>
          Some (s\<lparr>lanes := lanes', totalCount := total', countsChanged := True\<rparr>))"

text \<open>
  What happens to the counters after start-up: the main loop polls a lane, or a
  client sends the reset command.
\<close>

datatype Event = UpdateLane "8 word" "16 word" bool "32 word" | ResetCommand

fun event_in_range :: "Event \<Rightarrow> bool" where
  "event_in_range (UpdateLane ch dist timeoutOccurred millis) = (ch < NUM_LANES)"
| "event_in_range ResetCommand = True"

fun step :: "System \<Rightarrow> Event \<Rightarrow> System option" where
  "step s (UpdateLane ch dist timeoutOccurred millis) =
     updateLane s ch dist timeoutOccurred millis"
| "step s ResetCommand = resetCommand s"

fun run :: "System \<Rightarrow> Event list \<Rightarrow> System option" where
  "run s [] = Some s"
| "run s (e # es) = (case step s e of None \<Rightarrow> None | Some s' \<Rightarrow> run s' es)"

text \<open>The sum of the lane counts, in the \<^verbatim>\<open>uint32_t\<close> arithmetic of the counters.\<close>

definition sum_lane_counts :: "Lane list \<Rightarrow> 32 word" where
  "sum_lane_counts ls = sum_list (map count ls)"

section \<open>Example inputs\<close>

text \<open>
  A calibrated, healthy lane with baseline 500 mm and the configuration constants of
  main.cpp (\<^verbatim>\<open>DETECTION_DELTA_MM = 80\<close>, \<^verbatim>\<open>CLEAR_HYSTERESIS_MM = 30\<close>), in a given
  state, with a given count and lockout start.
\<close>

definition lane_420_450 :: "LaneState \<Rightarrow> 32 word \<Rightarrow> 32 word \<Rightarrow> Lane" where
  "lane_420_450 st c t =
     \<lparr>baseline_mm = 500, threshold_mm = 420, clearThresh_mm = 450, count = c, state = st,
      lockoutStart = t, sensorOk = True, lastDistance_mm = 0\<rparr>"

text \<open>
  The sample sequence of the specification (distances with their timestamps),
  followed by a second pass of a ball.
\<close>

definition spec_samples :: "(16 word \<times> 32 word) list" where
  "spec_samples =
     [(600, 0), (600, 10), (400, 20), (400, 30), (460, 40), (460, 100),
      (400, 110), (460, 120)]"

text \<open>
  A system after calibration in which lane 3 has a ball present and five counts, and
  lane 4 failed to initialise; and a run of polls and one reset command.
\<close>

definition example_system :: System where
  "example_system =
     \<lparr>lanes = [lane_420_450 IDLE 0 0, lane_420_450 IDLE 0 0,
               lane_420_450 BALL_PRESENT 5 0, Lane_default],
      totalCount = 5, countsChanged = False\<rparr>"

definition example_events :: "Event list" where
  "example_events =
     [UpdateLane 0 400 False 20, UpdateLane 2 460 False 25, ResetCommand,
      UpdateLane 1 400 False 30, UpdateLane 0 400 False 35, UpdateLane 0 460 False 40,
      UpdateLane 3 400 False 45, UpdateLane 1 460 True 50, UpdateLane 1 460 False 60]"

text \<open>
  The system after a start-up in which all four sensors initialised and calibrated to
  a baseline of 500 mm: every count and the total are zero.
\<close>

definition calibrated_system :: System where
  "calibrated_system =
     \<lparr>lanes = [lane_420_450 IDLE 0 0, lane_420_450 IDLE 0 0,
               lane_420_450 IDLE 0 0, lane_420_450 IDLE 0 0],
      totalCount = 0, countsChanged = True\<rparr>"

text \<open>
  One pass of a ball through lane \<open>ch\<close>, as three polls: the ball is seen, it has
  cleared (the lane counts, lockout starts at time 0), and the lockout has elapsed.
\<close>

definition count_cycle :: "8 word \<Rightarrow> Event list" where
  "count_cycle ch =
     [UpdateLane ch 400 False 0, UpdateLane ch 460 False 0, UpdateLane ch 460 False 60]"

text \<open>
  \<open>2 ^ 31\<close> passes through channel 0, a ball entering channel 0 again, and
  \<open>2 ^ 31 - 1\<close> passes through channel 1; and the state in which this run ends,
  with a total of \<open>2 ^ 32 - 1\<close>.
\<close>

definition wrap_events :: "Event list" where
  "wrap_events =
     concat (replicate 2147483648 (count_cycle 0)) @ [UpdateLane 0 400 False 0]
     @ concat (replicate 2147483647 (count_cycle 1))"

definition wrap_system :: System where
  "wrap_system =
     \<lparr>lanes = [(lane_420_450 BALL_PRESENT 2147483648 0)\<lparr>lastDistance_mm := 400\<rparr>,
               (lane_420_450 IDLE 2147483647 0)\<lparr>lastDistance_mm := 460\<rparr>,
               lane_420_450 IDLE 0 0, lane_420_450 IDLE 0 0],
      totalCount = 4294967295, countsChanged = True\<rparr>"

text \<open>
  A lane that is healthy, idle and has the thresholds 420 and 450; and such a lane
  after \<open>n\<close> passes of \<open>count_cycle\<close>.
\<close>

definition armed :: "Lane \<Rightarrow> bool" where
  "armed L \<longleftrightarrow>
     sensorOk L \<and> state L = IDLE \<and> threshold_mm L = 420 \<and> clearThresh_mm L = 450"

definition cycled :: "Lane \<Rightarrow> 32 word \<Rightarrow> Lane" where
  "cycled L n =
     L\<lparr>lastDistance_mm := 460, count := count L + n, state := IDLE, lockoutStart := 0\<rparr>"

section \<open>Word arithmetic used below\<close>

lemma unat16_bound: "unat (w :: 16 word) < 65536"
  using unsigned_less [of w, where ?'a = nat] by simp

lemma unat32_bound: "unat (w :: 32 word) < 4294967296"
  using unsigned_less [of w, where ?'a = nat] by simp

lemma unat16_sub_wrap:
  fixes b dl :: "16 word"
  assumes "b \<le> dl"
  shows "unat (b - dl) = (if dl = b then 0 else 65536 - (unat dl - unat b))"
  using assms
  by (auto simp: unat_sub_if_size word_size word_le_nat_alt word_unat_eq_iff)

lemma unat32_sub_wrap:
  fixes now st :: "32 word"
  assumes "now < st"
  shows "unat (now - st) = 4294967296 - (unat st - unat now)"
  using assms
  by (auto simp: unat_sub_if_size word_size word_less_nat_alt)

lemma word16_less_add_iff:
  fixes t h :: "16 word"
  assumes "0 < h"
  shows "t < t + h \<longleftrightarrow> unat t + unat h < 65536"
proof -
  have "unat h < 65536" and "unat t < 65536"
    by (rule unat16_bound)+
  moreover have "0 < unat h"
    using assms by (simp add: word_less_nat_alt)
  ultimately show ?thesis
    by (auto simp: word_size unat_plus_if_size word_less_nat_alt split: if_splits)
qed

section \<open>One call of the lane state machine\<close>

text \<open>
  Claim C1, as stated, lists the edges IDLE to BALL\_PRESENT and BALL\_PRESENT to
  LOCKOUT and says that in every other combination of state and distance the state is
  unchanged. A healthy lane in LOCKOUT whose lockout has elapsed is such a combination
  (it is neither IDLE nor BALL\_PRESENT), and the call moves it to IDLE.
\<close>

theorem processLaneReading_lockout_expiry_changes_state:
  "sensorOk (lane_420_450 LOCKOUT 1 40)
   \<and> \<not> (state (lane_420_450 LOCKOUT 1 40) = IDLE
          \<and> 460 < threshold_mm (lane_420_450 LOCKOUT 1 40))
   \<and> \<not> (state (lane_420_450 LOCKOUT 1 40) = BALL_PRESENT
          \<and> clearThresh_mm (lane_420_450 LOCKOUT 1 40) < 460)
   \<and> state (fst (processLaneReading (lane_420_450 LOCKOUT 1 40) 460 100 60))
       \<noteq> state (lane_420_450 LOCKOUT 1 40)"
  by (simp add: lane_420_450_def processLaneReading_def)

text \<open>
  Claim C1, amended: for every healthy lane one call of \<open>processLaneReading\<close>
  implements the following table. In IDLE with \<open>distance < threshold\<close> the state
  becomes BALL\_PRESENT with no count. In BALL\_PRESENT with
  \<open>distance > clearThresh\<close> the count is incremented by one (in \<^verbatim>\<open>uint32_t\<close>
  arithmetic), the lockout start is set to \<open>now\<close>, the state becomes LOCKOUT and the
  call returns true; no other case returns true. In LOCKOUT with
  \<open>now - lockoutStart \<ge> lockout\<close> (the difference taken modulo \<open>2 ^ 32\<close>) the state
  becomes IDLE with no count. In every remaining case state and count are unchanged
  and the call returns false. The threshold comparisons are strict: a distance equal
  to a threshold triggers no transition.
\<close>

theorem processLaneReading_transition_table:
  assumes "sensorOk l"
  shows "(case processLaneReading l d now lk of (l', counted) \<Rightarrow>
       (state l = IDLE \<and> d < threshold_mm l \<longrightarrow>
          state l' = BALL_PRESENT \<and> count l' = count l \<and> \<not> counted)
     \<and> (state l = BALL_PRESENT \<and> clearThresh_mm l < d \<longrightarrow>
          count l' = count l + 1 \<and> lockoutStart l' = now \<and> state l' = LOCKOUT \<and> counted)
     \<and> (counted \<longrightarrow> state l = BALL_PRESENT \<and> clearThresh_mm l < d)
     \<and> (state l = LOCKOUT \<and> lk \<le> now - lockoutStart l \<longrightarrow>
          state l' = IDLE \<and> count l' = count l \<and> \<not> counted)
     \<and> (\<not> (state l = IDLE \<and> d < threshold_mm l)
        \<and> \<not> (state l = BALL_PRESENT \<and> clearThresh_mm l < d)
        \<and> \<not> (state l = LOCKOUT \<and> lk \<le> now - lockoutStart l) \<longrightarrow>
          state l' = state l \<and> count l' = count l \<and> \<not> counted)
     \<and> (state l = IDLE \<and> d = threshold_mm l \<longrightarrow> state l' = IDLE)
     \<and> (state l = BALL_PRESENT \<and> d = clearThresh_mm l \<longrightarrow>
          state l' = BALL_PRESENT \<and> \<not> counted))"
  using assms by (cases "state l") (auto simp: processLaneReading_def Let_def)

theorem processLaneReading_transition_table_witness:
  "sensorOk (lane_420_450 BALL_PRESENT 0 0)
   \<and> state (lane_420_450 BALL_PRESENT 0 0) = BALL_PRESENT
   \<and> clearThresh_mm (lane_420_450 BALL_PRESENT 0 0) < 460
   \<and> count (fst (processLaneReading (lane_420_450 BALL_PRESENT 0 0) 460 40 60)) = 1
   \<and> lockoutStart (fst (processLaneReading (lane_420_450 BALL_PRESENT 0 0) 460 40 60)) = 40
   \<and> state (fst (processLaneReading (lane_420_450 BALL_PRESENT 0 0) 460 40 60)) = LOCKOUT
   \<and> snd (processLaneReading (lane_420_450 BALL_PRESENT 0 0) 460 40 60)
   \<and> state (lane_420_450 IDLE 0 0) = IDLE
   \<and> 400 < threshold_mm (lane_420_450 IDLE 0 0)
   \<and> state (fst (processLaneReading (lane_420_450 IDLE 0 0) 400 20 60)) = BALL_PRESENT
   \<and> state (fst (processLaneReading (lane_420_450 IDLE 0 0) 420 20 60)) = IDLE
   \<and> state (lane_420_450 LOCKOUT 1 40) = LOCKOUT
   \<and> (60 :: 32 word) \<le> 100 - lockoutStart (lane_420_450 LOCKOUT 1 40)
   \<and> state (fst (processLaneReading (lane_420_450 LOCKOUT 1 40) 460 100 60)) = IDLE"
  using processLaneReading_transition_table [of "lane_420_450 BALL_PRESENT 0 0" 460 40 60]
    processLaneReading_transition_table [of "lane_420_450 IDLE 0 0" 400 20 60]
    processLaneReading_transition_table [of "lane_420_450 IDLE 0 0" 420 20 60]
    processLaneReading_transition_table [of "lane_420_450 LOCKOUT 1 40" 460 100 60]
  by (simp add: lane_420_450_def split: prod.splits)

text \<open>
  Claim C7: on a lane whose sensor is not healthy the call returns false and leaves
  the whole lane, \<open>lastDistance_mm\<close> included, as it was. On a healthy lane every call
  stores the sample in \<open>lastDistance_mm\<close>; the store comes before the \<^verbatim>\<open>switch\<close>, and
  no transition reads or writes that field, so the result does not depend on the value
  the field had before.
\<close>

theorem processLaneReading_health_and_lastDistance:
  "(\<not> sensorOk l \<longrightarrow> processLaneReading l d now lk = (l, False))
   \<and> (sensorOk l \<longrightarrow>
        lastDistance_mm (fst (processLaneReading l d now lk)) = d
        \<and> processLaneReading (l\<lparr>lastDistance_mm := x\<rparr>) d now lk
            = processLaneReading l d now lk)"
  by (cases "state l") (auto simp: processLaneReading_def Let_def)

theorem processLaneReading_health_and_lastDistance_witness:
  "\<not> sensorOk Lane_default
   \<and> processLaneReading Lane_default 400 20 60 = (Lane_default, False)
   \<and> sensorOk (lane_420_450 BALL_PRESENT 0 0)
   \<and> lastDistance_mm (fst (processLaneReading (lane_420_450 BALL_PRESENT 0 0) 430 20 60))
       = 430"
  using processLaneReading_health_and_lastDistance [of Lane_default 400 20 60]
    processLaneReading_health_and_lastDistance [of "lane_420_450 BALL_PRESENT 0 0" 430 20 60]
  by (simp add: Lane_default_def lane_420_450_def)

text \<open>
  Claim C4, as stated, says that a timestamp earlier than the lockout start makes the
  subtraction saturate, so that the lane stays in LOCKOUT. The code subtracts in
  \<^verbatim>\<open>uint32_t\<close>: with lockout start 100, \<open>now = 50\<close> and a lockout of 60 the
  difference is \<open>2 ^ 32 - 50\<close>, not 0, and the lane leaves LOCKOUT although a
  saturated difference of 0 is below the lockout duration.
\<close>

theorem processLaneReading_stale_timestamp_wraps:
  "sensorOk (lane_420_450 LOCKOUT 1 100)
   \<and> state (lane_420_450 LOCKOUT 1 100) = LOCKOUT
   \<and> (50 :: 32 word) < lockoutStart (lane_420_450 LOCKOUT 1 100)
   \<and> \<not> ((60 :: 32 word) \<le> 0)
   \<and> (50 :: 32 word) - lockoutStart (lane_420_450 LOCKOUT 1 100) = 4294967246
   \<and> state (fst (processLaneReading (lane_420_450 LOCKOUT 1 100) 460 50 60)) = IDLE"
  by (simp add: lane_420_450_def processLaneReading_def)

text \<open>
  Claim C4, amended: for a lane in LOCKOUT and a timestamp \<open>now\<close> earlier than the
  lockout start, the difference \<open>now - lockoutStart\<close> wraps around to
  \<open>2 ^ 32 - (lockoutStart - now)\<close>; a healthy lane moves to IDLE exactly when that
  wrapped value is at least the lockout duration and stays in LOCKOUT otherwise. The
  call never fails: it returns false and changes nothing but \<open>lastDistance_mm\<close> and
  the state (and nothing at all on an unhealthy lane).
\<close>

theorem processLaneReading_lockout_wrapping_subtraction:
  assumes "state l = LOCKOUT" and "now < lockoutStart l"
  shows "unat (now - lockoutStart l) = 4294967296 - (unat (lockoutStart l) - unat now)
     \<and> processLaneReading l d now lk =
         (if sensorOk l
          then (l\<lparr>lastDistance_mm := d,
                  state := (if unat lk \<le> 4294967296 - (unat (lockoutStart l) - unat now)
                            then IDLE else LOCKOUT)\<rparr>, False)
          else (l, False))"
proof -
  have w: "unat (now - lockoutStart l) = 4294967296 - (unat (lockoutStart l) - unat now)"
    using assms(2) by (rule unat32_sub_wrap)
  have "lk \<le> now - lockoutStart l
          \<longleftrightarrow> unat lk \<le> 4294967296 - (unat (lockoutStart l) - unat now)"
    by (simp add: word_le_nat_alt w)
  then show ?thesis
    using assms(1) w by (simp add: processLaneReading_def Let_def)
qed

theorem processLaneReading_lockout_wrapping_subtraction_witness:
  "sensorOk (lane_420_450 LOCKOUT 1 100)
   \<and> state (lane_420_450 LOCKOUT 1 100) = LOCKOUT
   \<and> (50 :: 32 word) < lockoutStart (lane_420_450 LOCKOUT 1 100)
   \<and> unat ((50 :: 32 word) - lockoutStart (lane_420_450 LOCKOUT 1 100)) = 4294967246
   \<and> processLaneReading (lane_420_450 LOCKOUT 1 100) 460 50 60
       = ((lane_420_450 LOCKOUT 1 100)\<lparr>lastDistance_mm := 460, state := IDLE\<rparr>, False)"
  using processLaneReading_lockout_wrapping_subtraction
          [of "lane_420_450 LOCKOUT 1 100" 50 460 60]
  by (simp add: lane_420_450_def)

section \<open>Threshold calibration\<close>

text \<open>
  Claim C3, as stated, says that with \<open>detection_delta \<ge> baseline\<close> the detection
  threshold is clamped to zero. The code subtracts and stores into a \<^verbatim>\<open>uint16_t\<close>:
  baseline 50 with the configured delta 80 gives 65506.
\<close>

theorem calculateThresholds_threshold_wraps:
  "(50 :: 16 word) \<le> 80
   \<and> threshold_mm (calculateThresholds Lane_default 50 80 30) = 65506
   \<and> threshold_mm (calculateThresholds Lane_default 50 80 30) \<noteq> 0"
  by (simp add: calculateThresholds_def Lane_default_def)

text \<open>
  Claim C3, amended: for every baseline and every \<open>detection_delta \<ge> baseline\<close>,
  \<open>calculateThresholds\<close> sets the detection threshold to the difference modulo
  \<open>2 ^ 16\<close>: zero when the two are equal and \<open>2 ^ 16 - (detection_delta - baseline)\<close>,
  a wrapped non-zero value, when the delta is larger.
\<close>

theorem calculateThresholds_threshold_modular:
  assumes "baseline \<le> delta"
  shows "unat (threshold_mm (calculateThresholds l baseline delta hyst))
           = (if delta = baseline then 0 else 65536 - (unat delta - unat baseline))
     \<and> (threshold_mm (calculateThresholds l baseline delta hyst) = 0
          \<longleftrightarrow> delta = baseline)"
proof -
  have t: "threshold_mm (calculateThresholds l baseline delta hyst) = baseline - delta"
    by (simp add: calculateThresholds_def Let_def)
  have u: "unat (baseline - delta)
             = (if delta = baseline then 0 else 65536 - (unat delta - unat baseline))"
    using assms by (rule unat16_sub_wrap)
  have "baseline - delta = 0 \<longleftrightarrow> delta = baseline"
    by auto
  with t u show ?thesis by simp
qed

theorem calculateThresholds_threshold_modular_witness:
  "(50 :: 16 word) \<le> 80
   \<and> unat (threshold_mm (calculateThresholds Lane_default 50 80 30)) = 65506
   \<and> (80 :: 16 word) \<le> 80
   \<and> threshold_mm (calculateThresholds Lane_default 80 80 30) = 0"
  using calculateThresholds_threshold_modular [of 50 80 Lane_default 30]
    calculateThresholds_threshold_modular [of 80 80 Lane_default 30]
  by simp

text \<open>
  Claim C8, as stated, says that the clear threshold is above the detection threshold
  whenever the hysteresis is positive. The sum is stored into a \<^verbatim>\<open>uint16_t\<close> and
  wraps: baseline 60 with the configured delta 80 and hysteresis 30 gives a detection
  threshold of 65516 and a clear threshold of 10.
\<close>

theorem calculateThresholds_clear_below_detect:
  "(0 :: 16 word) < 30
   \<and> threshold_mm (calculateThresholds Lane_default 60 80 30) = 65516
   \<and> clearThresh_mm (calculateThresholds Lane_default 60 80 30) = 10
   \<and> \<not> (threshold_mm (calculateThresholds Lane_default 60 80 30)
          < clearThresh_mm (calculateThresholds Lane_default 60 80 30))"
  by (simp add: calculateThresholds_def Lane_default_def)

text \<open>
  Claim C8, amended: for every baseline, delta and hysteresis with
  \<open>clear_hysteresis > 0\<close>, the clear threshold computed by \<open>calculateThresholds\<close> is
  above the detection threshold exactly when the sum of the detection threshold
  (\<open>baseline - delta\<close> modulo \<open>2 ^ 16\<close>) and the hysteresis fits into 16 bits; in
  particular baseline 500, delta 80 and hysteresis 30 give the thresholds 420 and 450.
\<close>

theorem calculateThresholds_dead_band:
  "(0 < hyst \<longrightarrow>
      (threshold_mm (calculateThresholds l baseline delta hyst)
         < clearThresh_mm (calculateThresholds l baseline delta hyst)
       \<longleftrightarrow> unat (baseline - delta) + unat hyst < 65536))
   \<and> threshold_mm (calculateThresholds l 500 80 30) = 420
   \<and> clearThresh_mm (calculateThresholds l 500 80 30) = 450"
proof -
  have "0 < hyst \<Longrightarrow>
      (baseline - delta < baseline - delta + hyst
         \<longleftrightarrow> unat (baseline - delta) + unat hyst < 65536)"
    by (rule word16_less_add_iff)
  then show ?thesis
    by (simp add: calculateThresholds_def Let_def)
qed

theorem calculateThresholds_dead_band_witness:
  "(0 :: 16 word) < 30
   \<and> unat ((500 :: 16 word) - 80) + unat (30 :: 16 word) < 65536
   \<and> threshold_mm (calculateThresholds Lane_default 500 80 30)
       < clearThresh_mm (calculateThresholds Lane_default 500 80 30)
   \<and> threshold_mm (calculateThresholds Lane_default 500 80 30) = 420
   \<and> clearThresh_mm (calculateThresholds Lane_default 500 80 30) = 450"
  using calculateThresholds_dead_band [of 30 Lane_default 500 80]
  by simp

section \<open>Reset\<close>

lemma resetLanes_loop_result:
  "n \<le> length ls \<Longrightarrow>
   \<exists>ls'. resetLanes_loop i n ls = Some ls'
     \<and> length ls' = length ls
     \<and> (\<forall>j < length ls.
           ls' ! j = (if i \<le> j \<and> j < n
                      then (ls ! j)\<lparr>count := 0, state := IDLE\<rparr>
                      else ls ! j))"
proof (induction i n ls rule: resetLanes_loop.induct)
  case (1 i n ls)
  show ?case
  proof (cases "i < n")
    case False
    then show ?thesis
      by (auto simp: resetLanes_loop.simps [of i n ls])
  next
    case True
    with "1.prems" have il: "i < length ls" by simp
    let ?ls = "ls[i := (ls ! i)\<lparr>count := 0, state := IDLE\<rparr>]"
    from "1.IH" [OF True il] "1.prems"
    obtain ls' where r: "resetLanes_loop (Suc i) n ?ls = Some ls'"
      and len: "length ls' = length ?ls"
      and nth: "\<forall>j < length ?ls.
           ls' ! j = (if Suc i \<le> j \<and> j < n
                      then (?ls ! j)\<lparr>count := 0, state := IDLE\<rparr>
                      else ?ls ! j)"
      by auto
    have "resetLanes_loop i n ls = Some ls'"
      using True il r by (simp add: resetLanes_loop.simps [of i n ls])
    moreover have "length ls' = length ls"
      using len by simp
    moreover have "\<forall>j < length ls.
           ls' ! j = (if i \<le> j \<and> j < n
                      then (ls ! j)\<lparr>count := 0, state := IDLE\<rparr>
                      else ls ! j)"
    proof (intro allI impI)
      fix j assume j: "j < length ls"
      show "ls' ! j = (if i \<le> j \<and> j < n
                       then (ls ! j)\<lparr>count := 0, state := IDLE\<rparr>
                       else ls ! j)"
      proof (cases "j = i")
        case True
        then show ?thesis using nth j \<open>i < n\<close> by simp
      next
        case False
        then show ?thesis using nth j by (auto simp: nth_list_update)
      qed
    qed
    ultimately show ?thesis by blast
  qed
qed

lemma resetLanes_all:
  assumes "unat num_lanes = length ls"
  shows "\<exists>ls'. resetLanes ls num_lanes tc = Some (ls', 0)
     \<and> length ls' = length ls
     \<and> (\<forall>j < length ls. ls' ! j = (ls ! j)\<lparr>count := 0, state := IDLE\<rparr>)"
proof -
  have "unat num_lanes \<le> length ls" using assms by simp
  from resetLanes_loop_result [OF this, of 0]
  obtain ls' where r: "resetLanes_loop 0 (unat num_lanes) ls = Some ls'"
    and len: "length ls' = length ls"
    and nth: "\<forall>j < length ls.
           ls' ! j = (if 0 \<le> j \<and> j < unat num_lanes
                      then (ls ! j)\<lparr>count := 0, state := IDLE\<rparr>
                      else ls ! j)"
    by blast
  have "\<forall>j < length ls. ls' ! j = (ls ! j)\<lparr>count := 0, state := IDLE\<rparr>"
    using nth assms by simp
  with r len show ?thesis by (simp add: resetLanes_def)
qed

text \<open>
  Claim C5, as stated, says that the reset also puts the lockout start back to 0.
  The loop assigns \<open>count\<close> and \<open>state\<close> only: a lane in LOCKOUT since time 40 still
  has the lockout start 40 after the reset.
\<close>

theorem resetLanes_keeps_lockoutStart:
  "map_option (\<lambda>r. map lockoutStart (fst r)) (resetLanes [lane_420_450 LOCKOUT 3 40] 1 3)
     = Some [40]
   \<and> (40 :: 32 word) \<noteq> 0"
  by (simp add: resetLanes_def resetLanes_loop.simps lane_420_450_def)

text \<open>
  Claim C5, amended: \<open>resetLanes\<close>, called with the number of lanes of the array,
  resets the count of every lane to 0 and its state to IDLE, regardless of prior
  history; the lockout start of every lane keeps the value it had.
\<close>

theorem resetLanes_resets_count_and_state:
  assumes "unat num_lanes = length ls"
  shows "\<exists>ls'. resetLanes ls num_lanes tc = Some (ls', 0)
     \<and> length ls' = length ls
     \<and> (\<forall>j < length ls.
           count (ls' ! j) = 0 \<and> state (ls' ! j) = IDLE
           \<and> lockoutStart (ls' ! j) = lockoutStart (ls ! j))"
proof -
  from resetLanes_all [OF assms, of tc]
  obtain ls' where "resetLanes ls num_lanes tc = Some (ls', 0)"
    and "length ls' = length ls"
    and "\<forall>j < length ls. ls' ! j = (ls ! j)\<lparr>count := 0, state := IDLE\<rparr>"
    by blast
  then show ?thesis by simp
qed

theorem resetLanes_resets_count_and_state_witness:
  "unat (2 :: 8 word) = length [lane_420_450 LOCKOUT 3 40, lane_420_450 BALL_PRESENT 7 0]
   \<and> map_option (\<lambda>r. (map count (fst r), map state (fst r), map lockoutStart (fst r)))
        (resetLanes [lane_420_450 LOCKOUT 3 40, lane_420_450 BALL_PRESENT 7 0] 2 10)
       = Some ([0, 0], [IDLE, IDLE], [40, 0])"
  using resetLanes_resets_count_and_state
          [of 2 "[lane_420_450 LOCKOUT 3 40, lane_420_450 BALL_PRESENT 7 0]" 10]
  by (simp add: resetLanes_def resetLanes_loop.simps lane_420_450_def)

text \<open>
  Claim C6: for every prior state, \<open>resetLanes\<close> (called with the number of lanes of
  the array, as main.cpp does) sets every lane's count to zero and state to IDLE and
  sets the total to zero, and leaves every lane's baseline, detection threshold,
  clear threshold and sensor health unchanged; what is read right after the reset is
  a total of 0 and, for every lane, count 0 and state IDLE.
\<close>

theorem resetLanes_frame:
  assumes "unat num_lanes = length ls"
  shows "\<exists>ls' tc'. resetLanes ls num_lanes tc = Some (ls', tc')
     \<and> tc' = 0
     \<and> length ls' = length ls
     \<and> (\<forall>j < length ls.
           count (ls' ! j) = 0 \<and> state (ls' ! j) = IDLE
           \<and> baseline_mm (ls' ! j) = baseline_mm (ls ! j)
           \<and> threshold_mm (ls' ! j) = threshold_mm (ls ! j)
           \<and> clearThresh_mm (ls' ! j) = clearThresh_mm (ls ! j)
           \<and> sensorOk (ls' ! j) = sensorOk (ls ! j))"
proof -
  from resetLanes_all [OF assms, of tc]
  obtain ls' where "resetLanes ls num_lanes tc = Some (ls', 0)"
    and "length ls' = length ls"
    and "\<forall>j < length ls. ls' ! j = (ls ! j)\<lparr>count := 0, state := IDLE\<rparr>"
    by blast
  then show ?thesis by simp
qed

theorem resetLanes_frame_witness:
  "unat (2 :: 8 word) = length [lane_420_450 LOCKOUT 3 40, Lane_default\<lparr>count := 9\<rparr>]
   \<and> resetLanes [lane_420_450 LOCKOUT 3 40, Lane_default\<lparr>count := 9\<rparr>] 2 12
       = Some ([lane_420_450 IDLE 0 40, Lane_default], 0)"
  using resetLanes_frame [of 2 "[lane_420_450 LOCKOUT 3 40, Lane_default\<lparr>count := 9\<rparr>]" 12]
  by (simp add: resetLanes_def resetLanes_loop.simps lane_420_450_def Lane_default_def)

section \<open>Sequences of calls on one lane\<close>

lemma processLaneReading_thresholds:
  "threshold_mm (fst (processLaneReading l d now lk)) = threshold_mm l"
  "clearThresh_mm (fst (processLaneReading l d now lk)) = clearThresh_mm l"
  by (cases "state l"; simp add: processLaneReading_def Let_def)+

lemma processLaneReading_counted:
  "snd (processLaneReading l d now lk) \<Longrightarrow>
     sensorOk l \<and> state l = BALL_PRESENT \<and> clearThresh_mm l < d
     \<and> state (fst (processLaneReading l d now lk)) = LOCKOUT
     \<and> lockoutStart (fst (processLaneReading l d now lk)) = now"
  by (cases "state l") (auto simp: processLaneReading_def Let_def split: if_splits)

lemma processLaneReading_enter_present:
  "state l \<noteq> BALL_PRESENT \<Longrightarrow> state (fst (processLaneReading l d now lk)) = BALL_PRESENT
     \<Longrightarrow> d < threshold_mm l"
  by (cases "state l") (auto simp: processLaneReading_def Let_def split: if_splits)

lemma processLaneReading_in_lockout:
  "state l = LOCKOUT \<Longrightarrow>
     (state (fst (processLaneReading l d now lk)) = LOCKOUT
        \<and> lockoutStart (fst (processLaneReading l d now lk)) = lockoutStart l)
     \<or> (state (fst (processLaneReading l d now lk)) = IDLE
        \<and> lk \<le> now - lockoutStart l)"
  by (auto simp: processLaneReading_def Let_def split: if_splits)

lemma lane_run_counted_clear:
  "k < length samples \<Longrightarrow> lane_run l lk samples ! k \<Longrightarrow> clearThresh_mm l < fst (samples ! k)"
proof (induction samples arbitrary: l k)
  case Nil
  then show ?case by simp
next
  case (Cons s rest)
  obtain d now where s: "s = (d, now)" by (cases s)
  obtain l' c where p: "processLaneReading l d now lk = (l', c)"
    by (cases "processLaneReading l d now lk")
  have thr: "clearThresh_mm l' = clearThresh_mm l"
    using processLaneReading_thresholds(2) [of l d now lk] p by simp
  show ?case
  proof (cases k)
    case 0
    with Cons.prems s p have "snd (processLaneReading l d now lk)" by simp
    then show ?thesis using processLaneReading_counted [of l d now lk] 0 s by simp
  next
    case (Suc k')
    with Cons.prems s p have "k' < length rest" "lane_run l' lk rest ! k'" by simp_all
    then have "clearThresh_mm l' < fst (rest ! k')" by (rule Cons.IH)
    then show ?thesis using thr Suc by simp
  qed
qed

lemma lane_run_counted_detect:
  "state l \<noteq> BALL_PRESENT \<Longrightarrow> k < length samples \<Longrightarrow> lane_run l lk samples ! k \<Longrightarrow>
     \<exists>i<k. fst (samples ! i) < threshold_mm l"
proof (induction samples arbitrary: l k)
  case Nil
  then show ?case by simp
next
  case (Cons s rest)
  obtain d now where s: "s = (d, now)" by (cases s)
  obtain l' c where p: "processLaneReading l d now lk = (l', c)"
    by (cases "processLaneReading l d now lk")
  have thr: "threshold_mm l' = threshold_mm l"
    using processLaneReading_thresholds(1) [of l d now lk] p by simp
  show ?case
  proof (cases k)
    case 0
    with Cons.prems s p have "snd (processLaneReading l d now lk)" by simp
    then show ?thesis using processLaneReading_counted [of l d now lk] Cons.prems(1) by simp
  next
    case (Suc k')
    with Cons.prems s p have k': "k' < length rest" "lane_run l' lk rest ! k'" by simp_all
    show ?thesis
    proof (cases "state l' = BALL_PRESENT")
      case True
      then have "d < threshold_mm l"
        using processLaneReading_enter_present [of l d now lk] Cons.prems(1) p by simp
      then show ?thesis using Suc s by auto
    next
      case False
      from Cons.IH [OF False k'] obtain i where "i < k'" "fst (rest ! i) < threshold_mm l'"
        by blast
      then have "Suc i < k \<and> fst ((s # rest) ! Suc i) < threshold_mm l"
        using Suc thr by simp
      then show ?thesis by blast
    qed
  qed
qed

text \<open>
  Claim C10: a single call moves the lane along at most one edge of the graph
  IDLE to BALL\_PRESENT to LOCKOUT to IDLE. The call that starts in IDLE never counts
  and never reaches LOCKOUT; the call that starts in LOCKOUT never counts and never
  reaches BALL\_PRESENT. So, starting from IDLE, a call that counts is never the first
  one: some earlier call had a sample below the detection threshold, and the counting
  call has a sample above the clear threshold.
\<close>

theorem processLaneReading_one_edge_per_call:
  "(case processLaneReading l d now lk of (l', counted) \<Rightarrow>
       (state l' = state l
        \<or> (state l = IDLE \<and> state l' = BALL_PRESENT)
        \<or> (state l = BALL_PRESENT \<and> state l' = LOCKOUT)
        \<or> (state l = LOCKOUT \<and> state l' = IDLE))
     \<and> (state l = IDLE \<longrightarrow> \<not> counted \<and> state l' \<noteq> LOCKOUT)
     \<and> (state l = LOCKOUT \<longrightarrow> \<not> counted \<and> state l' \<noteq> BALL_PRESENT)
     \<and> (state l = BALL_PRESENT \<longrightarrow> state l' \<noteq> IDLE))
   \<and> (state l = IDLE \<and> k < length samples \<and> lane_run l lk samples ! k \<longrightarrow>
         (\<exists>i<k. fst (samples ! i) < threshold_mm l)
         \<and> clearThresh_mm l < fst (samples ! k))"
proof -
  have one: "(case processLaneReading l d now lk of (l', counted) \<Rightarrow>
       (state l' = state l
        \<or> (state l = IDLE \<and> state l' = BALL_PRESENT)
        \<or> (state l = BALL_PRESENT \<and> state l' = LOCKOUT)
        \<or> (state l = LOCKOUT \<and> state l' = IDLE))
     \<and> (state l = IDLE \<longrightarrow> \<not> counted \<and> state l' \<noteq> LOCKOUT)
     \<and> (state l = LOCKOUT \<longrightarrow> \<not> counted \<and> state l' \<noteq> BALL_PRESENT)
     \<and> (state l = BALL_PRESENT \<longrightarrow> state l' \<noteq> IDLE))"
    by (cases "state l") (auto simp: processLaneReading_def Let_def)
  have many: "state l = IDLE \<and> k < length samples \<and> lane_run l lk samples ! k \<longrightarrow>
         (\<exists>i<k. fst (samples ! i) < threshold_mm l)
         \<and> clearThresh_mm l < fst (samples ! k)"
  proof (intro impI, elim conjE)
    assume a: "state l = IDLE" "k < length samples" "lane_run l lk samples ! k"
    from a(1) have "state l \<noteq> BALL_PRESENT" by simp
    from lane_run_counted_detect [OF this a(2,3)] lane_run_counted_clear [OF a(2,3)]
    show "(\<exists>i<k. fst (samples ! i) < threshold_mm l)
          \<and> clearThresh_mm l < fst (samples ! k)"
      by simp
  qed
  from one many show ?thesis by (rule conjI)
qed

theorem processLaneReading_one_edge_per_call_witness:
  "state (lane_420_450 IDLE 0 0) = IDLE
   \<and> 4 < length spec_samples
   \<and> lane_run (lane_420_450 IDLE 0 0) 60 spec_samples ! 4
   \<and> \<not> lane_run (lane_420_450 IDLE 0 0) 60 spec_samples ! 2
   \<and> fst (spec_samples ! 2) < threshold_mm (lane_420_450 IDLE 0 0)
   \<and> clearThresh_mm (lane_420_450 IDLE 0 0) < fst (spec_samples ! 4)
   \<and> processLaneReading (lane_420_450 IDLE 0 0) 400 20 60
       = ((lane_420_450 IDLE 0 0)\<lparr>lastDistance_mm := 400, state := BALL_PRESENT\<rparr>, False)"
  using processLaneReading_one_edge_per_call
          [of "lane_420_450 IDLE 0 0" 400 20 60 4 spec_samples]
  by (simp add: spec_samples_def lane_420_450_def processLaneReading_def)

lemma lane_run_after_count:
  assumes "(state l = LOCKOUT \<and> lockoutStart l = t \<and> (\<forall>x \<in> set samples. t \<le> snd x))
           \<or> (state l \<noteq> LOCKOUT \<and> (\<forall>x \<in> set samples. unat t + unat lk \<le> unat (snd x)))"
    and "sorted (map snd samples)"
    and "k < length samples"
    and "lane_run l lk samples ! k"
  shows "unat t + unat lk \<le> unat (snd (samples ! k))"
  using assms
proof (induction samples arbitrary: l k)
  case Nil
  then show ?case by simp
next
  case (Cons s rest)
  obtain d now where s: "s = (d, now)" by (cases s)
  obtain l' c where p: "processLaneReading l d now lk = (l', c)"
    by (cases "processLaneReading l d now lk")
  show ?case
  proof (cases "state l = LOCKOUT")
    case False
    with Cons.prems(1) have "\<forall>x \<in> set (s # rest). unat t + unat lk \<le> unat (snd x)" by blast
    moreover have "(s # rest) ! k \<in> set (s # rest)" using Cons.prems(3) by (rule nth_mem)
    ultimately show ?thesis by blast
  next
    case True
    with Cons.prems(1) have t: "lockoutStart l = t" and ge: "\<forall>x \<in> set (s # rest). t \<le> snd x"
      by auto
    have sorted_rest: "sorted (map snd rest)" and later: "\<forall>x \<in> set rest. now \<le> snd x"
      using Cons.prems(2) s by auto
    show ?thesis
    proof (cases k)
      case 0
      with Cons.prems(4) s p have "snd (processLaneReading l d now lk)" by simp
      then show ?thesis using processLaneReading_counted [of l d now lk] True by simp
    next
      case (Suc k')
      with Cons.prems s p have k': "k' < length rest" "lane_run l' lk rest ! k'" by simp_all
      have "(state l' = LOCKOUT \<and> lockoutStart l' = t \<and> (\<forall>x \<in> set rest. t \<le> snd x))
           \<or> (state l' \<noteq> LOCKOUT \<and> (\<forall>x \<in> set rest. unat t + unat lk \<le> unat (snd x)))"
        using processLaneReading_in_lockout [OF True, of d now lk]
      proof
        assume "state (fst (processLaneReading l d now lk)) = LOCKOUT \<and>
                lockoutStart (fst (processLaneReading l d now lk)) = lockoutStart l"
        then show ?thesis using p t ge by simp
      next
        assume a: "state (fst (processLaneReading l d now lk)) = IDLE \<and> lk \<le> now - lockoutStart l"
        have "t \<le> now" using ge s by simp
        then have "unat (now - t) = unat now - unat t" by (rule unat_sub)
        moreover have "unat t \<le> unat now" using \<open>t \<le> now\<close> by (simp add: word_le_nat_alt)
        moreover have "unat lk \<le> unat (now - t)" using a t by (simp add: word_le_nat_alt)
        ultimately have "unat t + unat lk \<le> unat now" by arith
        then have "\<forall>x \<in> set rest. unat t + unat lk \<le> unat (snd x)"
          using later by (auto simp: word_le_nat_alt)
        then show ?thesis using a p by simp
      qed
      from Cons.IH [OF this sorted_rest k'] show ?thesis using Suc by simp
    qed
  qed
qed

text \<open>
  Claim C9: for every lane, every lockout duration and every sequence of calls whose
  timestamps are non-decreasing (as unsigned 32-bit values), any two calls that return
  true are at least the lockout duration apart: the timestamp of the later one is at
  least the timestamp of the earlier one plus the lockout duration.
\<close>

theorem lane_run_counts_lockout_apart:
  assumes "sorted (map snd samples)"
    and "i < j" and "j < length samples"
    and "lane_run l lk samples ! i" and "lane_run l lk samples ! j"
  shows "unat (snd (samples ! i)) + unat lk \<le> unat (snd (samples ! j))"
  using assms
proof (induction samples arbitrary: l i j)
  case Nil
  then show ?case by simp
next
  case (Cons s rest)
  obtain d now where s: "s = (d, now)" by (cases s)
  obtain l' c where p: "processLaneReading l d now lk = (l', c)"
    by (cases "processLaneReading l d now lk")
  have sorted_rest: "sorted (map snd rest)" and later: "\<forall>x \<in> set rest. now \<le> snd x"
    using Cons.prems(1) s by auto
  from Cons.prems(2) obtain j' where j: "j = Suc j'" by (cases j) auto
  with Cons.prems s p have j': "j' < length rest" "lane_run l' lk rest ! j'" by simp_all
  show ?case
  proof (cases i)
    case 0
    with Cons.prems(4) s p have "snd (processLaneReading l d now lk)" by simp
    then have "state l' = LOCKOUT \<and> lockoutStart l' = now"
      using processLaneReading_counted [of l d now lk] p by simp
    with later have "(state l' = LOCKOUT \<and> lockoutStart l' = now \<and> (\<forall>x \<in> set rest. now \<le> snd x))
           \<or> (state l' \<noteq> LOCKOUT \<and> (\<forall>x \<in> set rest. unat now + unat lk \<le> unat (snd x)))"
      by simp
    from lane_run_after_count [OF this sorted_rest j'] show ?thesis
      using 0 j s by simp
  next
    case (Suc i')
    with Cons.prems s p j have "i' < j'" "lane_run l' lk rest ! i'" by simp_all
    from Cons.IH [OF sorted_rest this(1) j'(1) this(2) j'(2)] show ?thesis
      using Suc j by simp
  qed
qed

theorem lane_run_counts_lockout_apart_witness:
  "sorted (map snd spec_samples)
   \<and> (4 :: nat) < 7 \<and> 7 < length spec_samples
   \<and> lane_run (lane_420_450 IDLE 0 0) 60 spec_samples ! 4
   \<and> lane_run (lane_420_450 IDLE 0 0) 60 spec_samples ! 7
   \<and> unat (snd (spec_samples ! 4)) + unat (60 :: 32 word) \<le> unat (snd (spec_samples ! 7))
   \<and> snd (spec_samples ! 4) = 40 \<and> snd (spec_samples ! 7) = 120"
  using lane_run_counts_lockout_apart [of spec_samples 4 7 "lane_420_450 IDLE 0 0" 60]
  by (simp add: spec_samples_def lane_420_450_def processLaneReading_def)

section \<open>The total and the lane counts\<close>

lemma sum_lane_counts_update:
  "i < length ls \<Longrightarrow>
     sum_lane_counts (ls[i := l']) = sum_lane_counts ls - count (ls ! i) + count l'"
  unfolding sum_lane_counts_def
  by (induction ls arbitrary: i) (auto simp: nth_Cons split: nat.splits)

lemma sum_lane_counts_zero:
  "\<forall>l \<in> set ls. count l = 0 \<Longrightarrow> sum_lane_counts ls = 0"
  unfolding sum_lane_counts_def
  by (induction ls) simp_all

lemma processLaneReading_count:
  "count (fst (processLaneReading l d now lk))
     = (if snd (processLaneReading l d now lk) then count l + 1 else count l)"
  by (cases "state l") (auto simp: processLaneReading_def Let_def)

lemma updateLane_invariant:
  assumes "unat ch < length (lanes s)"
    and "totalCount s = sum_lane_counts (lanes s)"
  shows "\<exists>s'. updateLane s ch dist tmo now = Some s'
           \<and> length (lanes s') = length (lanes s)
           \<and> totalCount s' = sum_lane_counts (lanes s')"
proof -
  obtain l' c where p: "processLaneReading (lanes s ! unat ch) dist now LOCKOUT_MS = (l', c)"
    by (cases "processLaneReading (lanes s ! unat ch) dist now LOCKOUT_MS")
  have cnt: "count l' = (if c then count (lanes s ! unat ch) + 1 else count (lanes s ! unat ch))"
    using processLaneReading_count [of "lanes s ! unat ch" dist now LOCKOUT_MS] p by simp
  show ?thesis
    using assms p cnt
    by (simp add: updateLane_def Let_def sum_lane_counts_update)
qed

lemma resetCommand_invariant:
  assumes "length (lanes s) = unat NUM_LANES"
  shows "\<exists>s'. resetCommand s = Some s'
           \<and> length (lanes s') = length (lanes s)
           \<and> totalCount s' = sum_lane_counts (lanes s')"
proof -
  have "unat NUM_LANES = length (lanes s)" using assms by simp
  from resetLanes_all [OF this, of "totalCount s"]
  obtain ls' where r: "resetLanes (lanes s) NUM_LANES (totalCount s) = Some (ls', 0)"
    and len: "length ls' = length (lanes s)"
    and nth: "\<forall>j < length (lanes s). ls' ! j = (lanes s ! j)\<lparr>count := 0, state := IDLE\<rparr>"
    by blast
  have "\<forall>l \<in> set ls'. count l = 0"
    using nth len by (simp add: all_set_conv_all_nth)
  then have "sum_lane_counts ls' = 0" by (rule sum_lane_counts_zero)
  then show ?thesis using r len by (simp add: resetCommand_def)
qed

lemma run_preserves_total:
  assumes "length (lanes s) = unat NUM_LANES"
    and "totalCount s = sum_lane_counts (lanes s)"
    and "\<forall>e \<in> set evs. event_in_range e"
  shows "\<exists>s'. run s evs = Some s' \<and> totalCount s' = sum_lane_counts (lanes s')"
  using assms
proof (induction evs arbitrary: s)
  case Nil
  then show ?case by simp
next
  case (Cons e es)
  have "\<exists>s1. step s e = Some s1 \<and> length (lanes s1) = length (lanes s)
          \<and> totalCount s1 = sum_lane_counts (lanes s1)"
  proof (cases e)
    case (UpdateLane ch dist tmo now)
    with Cons.prems(3) have "ch < NUM_LANES" by simp
    then have "unat ch < length (lanes s)"
      using Cons.prems(1) by (simp add: word_less_nat_alt)
    from updateLane_invariant [OF this Cons.prems(2)] show ?thesis
      using UpdateLane by simp
  next
    case ResetCommand
    with resetCommand_invariant [OF Cons.prems(1)] show ?thesis by simp
  qed
  then obtain s1 where s1: "step s e = Some s1" "length (lanes s1) = unat NUM_LANES"
    "totalCount s1 = sum_lane_counts (lanes s1)"
    using Cons.prems(1) by auto
  from Cons.IH [OF s1(2,3)] Cons.prems(3) s1(1) show ?case by simp
qed

lemma unat_sum_lane_counts_mod:
  "unat (sum_lane_counts ls) = sum_list (map (\<lambda>l. unat (count l)) ls) mod 4294967296"
proof (induction ls)
  case Nil
  then show ?case by (simp add: sum_lane_counts_def)
next
  case (Cons a ls)
  have "unat (count a + sum_lane_counts ls)
          = (unat (count a) + unat (sum_lane_counts ls)) mod 4294967296"
    by (simp add: unat_word_ariths)
  also have "\<dots> = (unat (count a) + sum_list (map (\<lambda>l. unat (count l)) ls)) mod 4294967296"
    by (simp add: Cons.IH mod_add_right_eq)
  finally show ?case by (simp add: sum_lane_counts_def)
qed

lemma armed_cycled: "armed L \<Longrightarrow> armed (cycled L n)"
  by (simp add: armed_def cycled_def)

lemma cycled_cycled: "cycled (cycled L m) n = cycled L (m + n)"
  by (simp add: cycled_def add.assoc)

lemma run_one_cycle:
  assumes "unat ch < length (lanes s)" and "armed (lanes s ! unat ch)"
  shows "run s (count_cycle ch @ es)
           = run (s\<lparr>lanes := (lanes s)[unat ch := cycled (lanes s ! unat ch) 1],
                     totalCount := totalCount s + 1, countsChanged := True\<rparr>) es"
proof -
  let ?L = "lanes s ! unat ch"
  let ?L' = "?L\<lparr>count := count ?L + 1, lockoutStart := 0, lastDistance_mm := 460,
                  state := IDLE\<rparr>"
  let ?s' = "s\<lparr>totalCount := totalCount s + 1, countsChanged := True,
                 lanes := (lanes s)[unat ch := ?L']\<rparr>"
  have r: "run s (count_cycle ch @ es) = run ?s' es"
    using assms
    by (simp add: count_cycle_def updateLane_def processLaneReading_def LOCKOUT_MS_def
        armed_def Let_def)
  have "?L' = cycled ?L 1"
    by (rule Lane.equality) (simp_all add: cycled_def)
  then have "?s' = s\<lparr>lanes := (lanes s)[unat ch := cycled ?L 1],
                       totalCount := totalCount s + 1, countsChanged := True\<rparr>"
    by (intro System.equality) simp_all
  with r show ?thesis by simp
qed

lemma run_cycles:
  assumes "unat ch < length (lanes s)" and "armed (lanes s ! unat ch)"
  shows "run s (concat (replicate (Suc n) (count_cycle ch)) @ es)
           = run (s\<lparr>lanes := (lanes s)
                              [unat ch := cycled (lanes s ! unat ch) (of_nat (Suc n))],
                     totalCount := totalCount s + of_nat (Suc n),
                     countsChanged := True\<rparr>) es"
  using assms
proof (induction n arbitrary: s)
  case 0
  then show ?case using run_one_cycle [of ch s es] by simp
next
  case (Suc n)
  let ?s1 = "s\<lparr>lanes := (lanes s)[unat ch := cycled (lanes s ! unat ch) 1],
                 totalCount := totalCount s + 1, countsChanged := True\<rparr>"
  have len: "unat ch < length (lanes ?s1)" using Suc.prems(1) by simp
  have arm: "armed (lanes ?s1 ! unat ch)"
    using Suc.prems by (simp add: armed_cycled)
  have "run s (concat (replicate (Suc (Suc n)) (count_cycle ch)) @ es)
          = run s (count_cycle ch @ (concat (replicate (Suc n) (count_cycle ch)) @ es))"
    by simp
  also have "\<dots> = run ?s1 (concat (replicate (Suc n) (count_cycle ch)) @ es)"
    using Suc.prems by (rule run_one_cycle)
  also have "\<dots> = run (?s1\<lparr>lanes := (lanes ?s1)
                               [unat ch := cycled (lanes ?s1 ! unat ch) (of_nat (Suc n))],
                            totalCount := totalCount ?s1 + of_nat (Suc n),
                            countsChanged := True\<rparr>) es"
    using len arm by (rule Suc.IH)
  also have "\<dots> = run (s\<lparr>lanes := (lanes s)
                             [unat ch := cycled (lanes s ! unat ch) (of_nat (Suc (Suc n)))],
                          totalCount := totalCount s + of_nat (Suc (Suc n)),
                          countsChanged := True\<rparr>) es"
    using Suc.prems(1) by (simp add: cycled_cycled add.assoc)
  finally show ?case .
qed

lemma wrap_system_reachable: "run calibrated_system wrap_events = Some wrap_system"
proof -
  let ?L = "lane_420_450 IDLE 0 0"
  have n0: "(2147483648 :: nat) = Suc 2147483647"
    and n1: "(2147483647 :: nat) = Suc 2147483646"
    by simp_all
  let ?s1 = "calibrated_system\<lparr>lanes := (lanes calibrated_system)
                 [unat (0 :: 8 word) :=
                    cycled (lanes calibrated_system ! unat (0 :: 8 word))
                      (of_nat (Suc 2147483647))],
               totalCount := totalCount calibrated_system + of_nat (Suc 2147483647),
               countsChanged := True\<rparr>"
  have s1: "?s1 = \<lparr>lanes = [cycled ?L 2147483648, ?L, ?L, ?L], totalCount = 2147483648,
                    countsChanged = True\<rparr>"
    by (simp add: calibrated_system_def)
  let ?s2 = "\<lparr>lanes = [(cycled ?L 2147483648)\<lparr>lastDistance_mm := 400,
                                                     state := BALL_PRESENT\<rparr>,
                         ?L, ?L, ?L], totalCount = 2147483648, countsChanged = True\<rparr>"
  have a0: "unat (0 :: 8 word) < length (lanes calibrated_system)"
    "armed (lanes calibrated_system ! unat (0 :: 8 word))"
    by (simp_all add: calibrated_system_def armed_def lane_420_450_def)
  have a1: "unat (1 :: 8 word) < length (lanes ?s2)" "armed (lanes ?s2 ! unat (1 :: 8 word))"
    by (simp_all add: armed_def lane_420_450_def)
  have "run calibrated_system wrap_events
          = run calibrated_system (concat (replicate (Suc 2147483647) (count_cycle 0))
              @ ([UpdateLane 0 400 False 0]
                 @ concat (replicate (Suc 2147483646) (count_cycle 1)) @ []))"
    unfolding wrap_events_def by (simp only: n0 [symmetric] n1 [symmetric] append_Nil2 append_assoc)
  also have "\<dots> = run ?s1 ([UpdateLane 0 400 False 0]
                        @ concat (replicate (Suc 2147483646) (count_cycle 1)) @ [])"
    using a0 by (rule run_cycles)
  also have "\<dots> = run ?s2 (concat (replicate (Suc 2147483646) (count_cycle 1)) @ [])"
    unfolding s1
    by (simp add: updateLane_def processLaneReading_def cycled_def lane_420_450_def
        LOCKOUT_MS_def Let_def del: replicate.simps replicate_Suc)
  also have "\<dots> = run (?s2\<lparr>lanes := (lanes ?s2)[unat (1 :: 8 word) :=
                               cycled (lanes ?s2 ! unat (1 :: 8 word)) (of_nat (Suc 2147483646))],
                            totalCount := totalCount ?s2 + of_nat (Suc 2147483646),
                            countsChanged := True\<rparr>) []"
    using a1 by (rule run_cycles)
  also have "\<dots> = Some wrap_system"
    by (simp add: wrap_system_def cycled_def lane_420_450_def)
  finally show ?thesis .
qed

lemma wrap_events_in_range: "list_all event_in_range wrap_events"
  by (simp add: wrap_events_def count_cycle_def list_all_iff NUM_LANES_def FC_NUM_LANES_def)

text \<open>
  Claim C2, as stated, says that the total equals the sum of the lane counts after any
  finite sequence of processing calls and resets. Both are \<^verbatim>\<open>uint32_t\<close> and wrap.
  The in-range polls of \<open>wrap_events\<close> take the system from start-up (all counts and
  the total zero) to a state with lane counts \<open>2 ^ 31\<close> and \<open>2 ^ 31 - 1\<close> and the
  total \<open>2 ^ 32 - 1\<close>, still equal to their sum. One more poll of channel 0, in which
  the ball clears, makes the lane counts add up to \<open>2 ^ 32\<close> while \<^verbatim>\<open>totalCount++\<close>
  wraps to 0.
\<close>

theorem run_total_wraps_below_sum:
  "list_all event_in_range (wrap_events @ [UpdateLane 0 460 False 40])
   \<and> totalCount calibrated_system = 0
   \<and> map count (lanes calibrated_system) = [0, 0, 0, 0]
   \<and> run calibrated_system wrap_events = Some wrap_system
   \<and> length (lanes wrap_system) = unat NUM_LANES
   \<and> unat (totalCount wrap_system) = 4294967295
   \<and> sum_list (map (\<lambda>l. unat (count l)) (lanes wrap_system)) = 4294967295
   \<and> map_option (\<lambda>s. (unat (totalCount s), sum_list (map (\<lambda>l. unat (count l)) (lanes s))))
        (run wrap_system [UpdateLane 0 460 False 40]) = Some (0, 4294967296)
   \<and> (0 :: nat) \<noteq> 4294967296"
proof -
  have "list_all event_in_range (wrap_events @ [UpdateLane 0 460 False 40])"
    using wrap_events_in_range by (simp add: NUM_LANES_def FC_NUM_LANES_def)
  moreover have "totalCount calibrated_system = 0
      \<and> map count (lanes calibrated_system) = [0, 0, 0, 0]"
    by (simp add: calibrated_system_def lane_420_450_def)
  moreover have "length (lanes wrap_system) = unat NUM_LANES
      \<and> unat (totalCount wrap_system) = 4294967295
      \<and> sum_list (map (\<lambda>l. unat (count l)) (lanes wrap_system)) = 4294967295"
    by (simp add: wrap_system_def lane_420_450_def NUM_LANES_def FC_NUM_LANES_def)
  moreover have "map_option
        (\<lambda>s. (unat (totalCount s), sum_list (map (\<lambda>l. unat (count l)) (lanes s))))
        (run wrap_system [UpdateLane 0 460 False 40]) = Some (0, 4294967296)"
    by (simp add: wrap_system_def updateLane_def LOCKOUT_MS_def lane_420_450_def
        processLaneReading_def)
  ultimately show ?thesis
    using wrap_system_reachable by simp
qed

text \<open>
  Claim C2, amended: start from any state of the four lanes in which the total equals
  the sum of the lane counts modulo \<open>2 ^ 32\<close> (the state after start-up is one: all
  counts and the total are zero). After any finite sequence of \<open>updateLane\<close> calls,
  each adding one to the total exactly when \<open>processLaneReading\<close> returns true, and
  reset commands, the run completes and the total equals the sum of the lane counts
  modulo \<open>2 ^ 32\<close>; it is the exact sum whenever that sum is below \<open>2 ^ 32\<close>.
\<close>

theorem run_total_is_sum_of_lane_counts:
  assumes "length (lanes s) = unat NUM_LANES"
    and "totalCount s = sum_lane_counts (lanes s)"
    and "\<forall>e \<in> set evs. event_in_range e"
  shows "\<exists>s'. run s evs = Some s'
     \<and> totalCount s' = sum_lane_counts (lanes s')
     \<and> unat (totalCount s')
         = sum_list (map (\<lambda>l. unat (count l)) (lanes s')) mod 4294967296
     \<and> (sum_list (map (\<lambda>l. unat (count l)) (lanes s')) < 4294967296 \<longrightarrow>
          unat (totalCount s') = sum_list (map (\<lambda>l. unat (count l)) (lanes s')))"
proof -
  from run_preserves_total [OF assms]
  obtain s' where r: "run s evs = Some s'"
    and t: "totalCount s' = sum_lane_counts (lanes s')"
    by blast
  have m: "unat (totalCount s')
             = sum_list (map (\<lambda>l. unat (count l)) (lanes s')) mod 4294967296"
    using t unat_sum_lane_counts_mod [of "lanes s'"] by simp
  then have "sum_list (map (\<lambda>l. unat (count l)) (lanes s')) < 4294967296 \<longrightarrow>
          unat (totalCount s') = sum_list (map (\<lambda>l. unat (count l)) (lanes s'))"
    by simp
  with r t m show ?thesis by blast
qed

theorem run_total_is_sum_of_lane_counts_witness:
  "length (lanes example_system) = unat NUM_LANES
   \<and> totalCount example_system = sum_lane_counts (lanes example_system)
   \<and> list_all event_in_range example_events
   \<and> map_option (\<lambda>s. (totalCount s, map count (lanes s), sum_lane_counts (lanes s),
                          sum_list (map (\<lambda>l. unat (count l)) (lanes s))))
        (run example_system example_events) = Some (2, [1, 1, 0, 0], 2, 2)"
  using run_total_is_sum_of_lane_counts [of example_system example_events]
  by (simp add: example_system_def example_events_def updateLane_def resetCommand_def
      resetLanes_def resetLanes_loop.simps NUM_LANES_def FC_NUM_LANES_def LOCKOUT_MS_def
      lane_420_450_def Lane_default_def processLaneReading_def sum_lane_counts_def)

end
